theory Spec2Isabelle
  imports Main "HOL-Library.AList" "HOL-Library.Multiset"
begin

section \<open>The category table and the classifier\<close>

text \<open>
  \<^verbatim>\<open>FOLDER_MAPPING\<close> of \<^verbatim>\<open>main.js\<close>: an object literal whose keys are folder names and
  whose values are arrays of extensions. A \<^verbatim>\<open>for ... in\<close> loop visits the keys of such a
  literal in the order they are written, so the table is an association list.
\<close>

definition FOLDER_MAPPING :: "(string \<times> string list) list" where
  "FOLDER_MAPPING =
     [(''imagens'', [''.jpg'', ''.jpeg'', ''.png'', ''.gif'', ''.bmp'', ''.svg'', ''.webp'']),
      (''documentos'', [''.pdf'', ''.doc'', ''.docx'', ''.xls'', ''.xlsx'', ''.ppt'', ''.pptx'',
                        ''.txt'', ''.csv'', ''.rtf'']),
      (''videos'', [''.mp4'', ''.mkv'', ''.avi'', ''.mov'', ''.wmv'']),
      (''audios'', [''.mp3'', ''.wav'', ''.aac'', ''.flac'']),
      (''arquivos_comprimidos'', [''.zip'', ''.rar'', ''.7z'', ''.tar'', ''.gz'']),
      (''codigo'', [''.js'', ''.html'', ''.css'', ''.py'', ''.java'', ''.c'', ''.cpp'', ''.json'',
                    ''.xml''])]"

text \<open>
  The loop of \<^verbatim>\<open>getDestinationFolder\<close> over a table: return the first folder whose array
  \<^verbatim>\<open>includes\<close> the extension, and \<^verbatim>\<open>'outros'\<close> when the loop falls through.
\<close>

fun for_folder_in :: "(string \<times> string list) list \<Rightarrow> string \<Rightarrow> string" where
  "for_folder_in [] fileExtension = ''outros''"
| "for_folder_in ((folder, extensions) # rest) fileExtension =
     (if fileExtension \<in> set extensions then folder else for_folder_in rest fileExtension)"

definition getDestinationFolder :: "string \<Rightarrow> string" where
  "getDestinationFolder fileExtension = for_folder_in FOLDER_MAPPING fileExtension"

section \<open>Names and extensions\<close>

text \<open>
  Entry names are strings of bytes, the UTF-8 form of the name: a byte below 128 is an ASCII
  character, and the bytes of every other character are 128 or more. On the ASCII letters,
  lower-casing maps \<^verbatim>\<open>A\<close>..\<^verbatim>\<open>Z\<close> to \<^verbatim>\<open>a\<close>..\<^verbatim>\<open>z\<close>.
\<close>

definition toLowerCase_char :: "char \<Rightarrow> char" where
  "toLowerCase_char c =
     (case map_of (zip ''ABCDEFGHIJKLMNOPQRSTUVWXYZ'' ''abcdefghijklmnopqrstuvwxyz'') c of
        Some l \<Rightarrow> l
      | None \<Rightarrow> c)"

text \<open>
  \<^verbatim>\<open>String.prototype.toLowerCase\<close>. On a string of ASCII characters it lower-cases the
  letters and keeps the rest. On a string with other characters it is the Unicode
  lower-casing of the platform, which is not modelled: it is the parameter
  \<open>unicode_lower\<close>, applied to the string with its ASCII letters lower-cased (Unicode
  lower-casing maps \<^verbatim>\<open>A\<close>..\<^verbatim>\<open>Z\<close> to \<^verbatim>\<open>a\<close>..\<^verbatim>\<open>z\<close> wherever they stand, so this loses
  nothing). Every theorem holds for every such parameter.
\<close>

definition toLowerCase :: "(string \<Rightarrow> string) \<Rightarrow> string \<Rightarrow> string" where
  "toLowerCase unicode_lower s =
     (let ascii_lowered = map toLowerCase_char s in
      if list_all (\<lambda>c. \<not> digit7 c) ascii_lowered then ascii_lowered
      else unicode_lower ascii_lowered)"

text \<open>
  \<^verbatim>\<open>path.extname\<close> of Node on a name without path separators (a directory entry): the
  part of the name from its last dot on; empty when the name has no dot, when its only dot
  is the first character, and for the name \<^verbatim>\<open>..\<close>.
\<close>

definition extname :: "string \<Rightarrow> string" where
  "extname name =
     (let afterDot = takeWhile (\<lambda>c. c \<noteq> CHR ''.'') (rev name) in
      if length afterDot = length name then []
      else
        let startDot = length name - Suc (length afterDot) in
        if startDot = 0 then []
        else if name = ''..'' then []
        else drop startDot name)"

section \<open>The file system, the console and the trace\<close>

text \<open>
  The file system is seen from the target directory: \<open>None\<close> when the path names no
  directory, otherwise the directory's entries in listing order. A \<open>File\<close> stands for
  every entry whose \<^verbatim>\<open>stat\<close> is not a directory and carries the identity of the file
  (its inode): two entries with the same identity are hard links to one file. A \<open>Dir\<close>
  stands for a directory or a link to one; a link back to the target directory is a
  \<open>Dir\<close> whose entries are the files of the target directory themselves.
\<close>

datatype node = File nat | Dir "(string \<times> node) list"

type_synonym directory = "(string \<times> node) list"

text \<open>
  The calls the program makes, with paths relative to \<^verbatim>\<open>directoryPath\<close>:
  \<open>Stat item\<close> is \<^verbatim>\<open>fs.stat(path.join(directoryPath, item))\<close>,
  \<open>Mkdir folder\<close> is \<^verbatim>\<open>fs.mkdir(path.join(directoryPath, folder), { recursive: true })\<close>,
  \<open>Rename item folder\<close> is \<^verbatim>\<open>fs.rename\<close> from \<^verbatim>\<open>directoryPath/item\<close> to
  \<^verbatim>\<open>directoryPath/folder/item\<close>.
\<close>

datatype syscall = Scandir | Stat string | Mkdir string | Rename string string

datatype error = Error (code: string) (failed: syscall)

text \<open>
  The lines the program prints: the start line with the directory, one line per moved
  file with its folder, the success line; the error line with the error's message, the
  hint to check the path, and the two usage lines of the entry point.
\<close>

datatype line =
    Starting string
  | Moved string string
  | Finished
  | ErrorOccurred error
  | CheckPathHint
  | MissingArgument
  | Usage

datatype event = Call syscall | Stdout line | Stderr line

record world =
  files :: "directory option"
  trace :: "event list"

text \<open>
  Failures that do not come from the directory tree (permissions, a dangling symbolic
  link, an entry removed by another process, a full disk) are the environment's: a function
  from the call to the error code it fails with, if any.
\<close>

type_synonym faults = "syscall \<Rightarrow> string option"

definition no_faults :: faults where
  "no_faults = (\<lambda>call. None)"

definition emit :: "event \<Rightarrow> world \<Rightarrow> world" where
  "emit ev w = w\<lparr>trace := trace w @ [ev]\<rparr>"

definition console_log :: "line \<Rightarrow> world \<Rightarrow> world" where
  "console_log l w = emit (Stdout l) w"

definition console_error :: "line \<Rightarrow> world \<Rightarrow> world" where
  "console_error l w = emit (Stderr l) w"

definition fs_readdir :: "faults \<Rightarrow> world \<Rightarrow> (error + string list) \<times> world" where
  "fs_readdir flt w =
     (let w' = emit (Call Scandir) w in
      case flt Scandir of
        Some c \<Rightarrow> (Inl (Error c Scandir), w')
      | None \<Rightarrow>
          (case files w of
             None \<Rightarrow> (Inl (Error ''ENOENT'' Scandir), w')
           | Some d \<Rightarrow> (Inr (map fst d), w')))"

text \<open>\<^verbatim>\<open>fs.stat\<close> followed by \<^verbatim>\<open>isDirectory()\<close>.\<close>

definition fs_stat :: "faults \<Rightarrow> string \<Rightarrow> world \<Rightarrow> (error + bool) \<times> world" where
  "fs_stat flt item w =
     (let w' = emit (Call (Stat item)) w in
      case flt (Stat item) of
        Some c \<Rightarrow> (Inl (Error c (Stat item)), w')
      | None \<Rightarrow>
          (case files w of
             None \<Rightarrow> (Inl (Error ''ENOENT'' (Stat item)), w')
           | Some d \<Rightarrow>
               (case map_of d item of
                  None \<Rightarrow> (Inl (Error ''ENOENT'' (Stat item)), w')
                | Some (File c) \<Rightarrow> (Inr False, w')
                | Some (Dir sub) \<Rightarrow> (Inr True, w'))))"

text \<open>
  \<^verbatim>\<open>fs.mkdir\<close> with \<^verbatim>\<open>recursive: true\<close> on a folder of the target directory: an
  existing directory is no error, an absent one is created empty (with the target
  directory itself, when that is missing), an existing file is \<^verbatim>\<open>EEXIST\<close>.
\<close>

definition mkdir_p :: "string \<Rightarrow> directory \<Rightarrow> string + directory" where
  "mkdir_p folder d =
     (case map_of d folder of
        None \<Rightarrow> Inr (d @ [(folder, Dir [])])
      | Some (Dir sub) \<Rightarrow> Inr d
      | Some (File c) \<Rightarrow> Inl ''EEXIST'')"

definition fs_mkdir :: "faults \<Rightarrow> string \<Rightarrow> world \<Rightarrow> (error + unit) \<times> world" where
  "fs_mkdir flt folder w =
     (let call = Mkdir folder; w' = emit (Call call) w in
      case flt call of
        Some c \<Rightarrow> (Inl (Error c call), w')
      | None \<Rightarrow>
          (case mkdir_p folder (case files w of None \<Rightarrow> [] | Some d \<Rightarrow> d) of
             Inl c \<Rightarrow> (Inl (Error c call), w')
           | Inr d' \<Rightarrow> (Inr (), w'\<lparr>files := Some d'\<rparr>)))"

text \<open>
  \<^verbatim>\<open>fs.rename\<close> of the entry \<open>item\<close> of the target directory into its subfolder
  \<open>folder\<close>, under the same name (POSIX \<^verbatim>\<open>rename\<close>): when the destination is already
  the same file as the source (a hard link to it), the call succeeds and does nothing;
  otherwise a file replaces a file of that name and fails on a directory of that name, and
  a directory replaces an empty directory only.
\<close>

definition same_file :: "node \<Rightarrow> node option \<Rightarrow> bool" where
  "same_file src dst =
     (case (src, dst) of
        (File i, Some (File j)) \<Rightarrow> i = j
      | _ \<Rightarrow> False)"

definition rename_errno :: "node \<Rightarrow> node option \<Rightarrow> string option" where
  "rename_errno src dst =
     (case (src, dst) of
        (File c, Some (Dir t)) \<Rightarrow> Some ''EISDIR''
      | (Dir s, Some (File c)) \<Rightarrow> Some ''ENOTDIR''
      | (Dir s, Some (Dir t)) \<Rightarrow> (if t = [] then None else Some ''ENOTEMPTY'')
      | _ \<Rightarrow> None)"

definition rename_into :: "string \<Rightarrow> string \<Rightarrow> directory \<Rightarrow> string + directory" where
  "rename_into item folder d =
     (case map_of d item of
        None \<Rightarrow> Inl ''ENOENT''
      | Some src \<Rightarrow>
          (case map_of d folder of
             None \<Rightarrow> Inl ''ENOENT''
           | Some (File c) \<Rightarrow> Inl ''ENOTDIR''
           | Some (Dir sub) \<Rightarrow>
               if item = folder then Inl ''EINVAL''
               else if same_file src (map_of sub item) then Inr d
               else
                 (case rename_errno src (map_of sub item) of
                    Some c \<Rightarrow> Inl c
                  | None \<Rightarrow>
                      Inr (AList.update folder (Dir (AList.update item src sub))
                             (AList.delete item d)))))"

definition fs_rename :: "faults \<Rightarrow> string \<Rightarrow> string \<Rightarrow> world \<Rightarrow> (error + unit) \<times> world" where
  "fs_rename flt item folder w =
     (let call = Rename item folder; w' = emit (Call call) w in
      case flt call of
        Some c \<Rightarrow> (Inl (Error c call), w')
      | None \<Rightarrow>
          (case files w of
             None \<Rightarrow> (Inl (Error ''ENOENT'' call), w')
           | Some d \<Rightarrow>
               (case rename_into item folder d of
                  Inl c \<Rightarrow> (Inl (Error c call), w')
                | Inr d' \<Rightarrow> (Inr (), w'\<lparr>files := Some d'\<rparr>))))"

section \<open>The organizer\<close>

text \<open>
  One turn of the loop of \<^verbatim>\<open>organizeDirectory\<close> on an entry name. The result is the
  error thrown, if any, and the world as the turn leaves it. The first argument is the
  platform's Unicode lower-casing, the parameter of \<open>toLowerCase\<close>.
\<close>

definition loop_body ::
  "(string \<Rightarrow> string) \<Rightarrow> faults \<Rightarrow> string \<Rightarrow> world \<Rightarrow> error option \<times> world" where
  "loop_body lc flt item w =
     (case fs_stat flt item w of
        (Inl e, w1) \<Rightarrow> (Some e, w1)
      | (Inr isDirectory, w1) \<Rightarrow>
          if isDirectory \<or> item = ''main.js'' then (None, w1)
          else
            let fileExtension = toLowerCase lc (extname item) in
            if fileExtension = [] then (None, w1)
            else
              let destinationFolder = getDestinationFolder fileExtension in
              (case fs_mkdir flt destinationFolder w1 of
                 (Inl e, w2) \<Rightarrow> (Some e, w2)
               | (Inr u, w2) \<Rightarrow>
                   (case fs_rename flt item destinationFolder w2 of
                      (Inl e, w3) \<Rightarrow> (Some e, w3)
                    | (Inr u', w3) \<Rightarrow>
                        (None, console_log (Moved item destinationFolder) w3))))"

fun for_items ::
  "(string \<Rightarrow> string) \<Rightarrow> faults \<Rightarrow> string list \<Rightarrow> world \<Rightarrow> error option \<times> world" where
  "for_items lc flt [] w = (None, w)"
| "for_items lc flt (item # items) w =
     (case loop_body lc flt item w of
        (Some e, w') \<Rightarrow> (Some e, w')
      | (None, w') \<Rightarrow> for_items lc flt items w')"

text \<open>The \<^verbatim>\<open>catch\<close> block.\<close>

definition catch_error :: "error \<Rightarrow> world \<Rightarrow> world" where
  "catch_error e w =
     (let w' = console_error (ErrorOccurred e) w in
      if code e = ''ENOENT'' then console_error CheckPathHint w' else w')"

definition organizeDirectory ::
  "(string \<Rightarrow> string) \<Rightarrow> faults \<Rightarrow> string \<Rightarrow> world \<Rightarrow> world" where
  "organizeDirectory lc flt directoryPath w =
     (let w0 = console_log (Starting directoryPath) w in
      case fs_readdir flt w0 of
        (Inl e, w1) \<Rightarrow> catch_error e w1
      | (Inr items, w1) \<Rightarrow>
          (case for_items lc flt items w1 of
             (Some e, w2) \<Rightarrow> catch_error e w2
           | (None, w2) \<Rightarrow> console_log Finished w2))"

text \<open>
  The entry point. \<^verbatim>\<open>process.argv[2]\<close> is undefined when fewer than three arguments
  are given; undefined and the empty string are falsy. \<^verbatim>\<open>path.resolve\<close> is a parameter.
  The result is the exit code with the final world: \<^verbatim>\<open>process.exit(1)\<close> on the usage
  error, and otherwise the code of a Node process that runs to its end, which is 0.
\<close>

definition main ::
  "(string \<Rightarrow> string) \<Rightarrow> faults \<Rightarrow> (string \<Rightarrow> string) \<Rightarrow> string list \<Rightarrow> world \<Rightarrow>
     nat \<times> world" where
  "main lc flt path_resolve argv w =
     (case drop 2 argv of
        [] \<Rightarrow> (1, console_error Usage (console_error MissingArgument w))
      | targetDirectory # others \<Rightarrow>
          if targetDirectory = [] then (1, console_error Usage (console_error MissingArgument w))
          else
            let absolutePath = path_resolve targetDirectory in
            (0, organizeDirectory lc flt absolutePath w))"

section \<open>Observations on worlds\<close>


definition since :: "world \<Rightarrow> world \<Rightarrow> event list" where
  "since w w' = drop (length (trace w)) (trace w')"

text \<open>
  The entries the loop does not skip: files, not named \<^verbatim>\<open>main.js\<close>, whose lower-cased
  extension is not empty.
\<close>

definition eligible :: "(string \<Rightarrow> string) \<Rightarrow> directory \<Rightarrow> string \<Rightarrow> bool" where
  "eligible lc d name \<longleftrightarrow>
     (case map_of d name of Some (File c) \<Rightarrow> True | _ \<Rightarrow> False) \<and>
     name \<noteq> ''main.js'' \<and> toLowerCase lc (extname name) \<noteq> []"

text \<open>The folder the loop computes for an entry name.\<close>

abbreviation folder_of :: "(string \<Rightarrow> string) \<Rightarrow> string \<Rightarrow> string" where
  "folder_of lc item \<equiv> getDestinationFolder (toLowerCase lc (extname item))"

text \<open>
  An entry is still there: a file as the same file, a directory as a directory (its
  contents may have grown).
\<close>

definition still :: "node \<Rightarrow> node \<Rightarrow> bool" where
  "still x x' \<longleftrightarrow>
     (case x of
        File c \<Rightarrow> x' = File c
      | Dir sub \<Rightarrow> (case x' of Dir sub' \<Rightarrow> True | File c' \<Rightarrow> False))"

text \<open>
  The files of a directory, and the files of the target directory with those of its
  immediate subfolders, as multisets of file identities.
\<close>

definition files_in :: "directory \<Rightarrow> nat multiset" where
  "files_in d = (\<Sum>(n, x)\<leftarrow>d. case x of File c \<Rightarrow> {#c#} | Dir sub \<Rightarrow> {#})"

definition tree_files :: "directory \<Rightarrow> nat multiset" where
  "tree_files d = (\<Sum>(n, x)\<leftarrow>d. case x of File c \<Rightarrow> {#c#} | Dir sub \<Rightarrow> files_in sub)"



text \<open>
  No destination is a link to its source: for every entry the loop would move, its
  folder, when it exists as a directory, does not hold that same file under that name.
\<close>

definition unlinked_destinations :: "(string \<Rightarrow> string) \<Rightarrow> directory \<Rightarrow> bool" where
  "unlinked_destinations lc d \<longleftrightarrow>
     list_all (\<lambda>(item, x). eligible lc d item \<longrightarrow>
        (case map_of d (folder_of lc item) of
           Some (Dir sub) \<Rightarrow> map_of sub item \<noteq> Some x
         | _ \<Rightarrow> True)) d"



section \<open>Properties of the classifier\<close>

lemma for_folder_in_first:
  assumes "i < length table" "ext \<in> set (snd (table ! i))"
    and "\<forall>j<i. ext \<notin> set (snd (table ! j))"
  shows "for_folder_in table ext = fst (table ! i)"
  using assms
proof (induction table arbitrary: i)
  case Nil
  then show ?case by simp
next
  case (Cons p table)
  obtain folder extensions where p: "p = (folder, extensions)" by (cases p)
  show ?case
  proof (cases i)
    case 0
    with Cons.prems p show ?thesis by simp
  next
    case (Suc k)
    from Cons.prems(3) Suc have "ext \<notin> set (snd ((p # table) ! 0))" by blast
    then have notin: "ext \<notin> set extensions" using p by simp
    have "for_folder_in table ext = fst (table ! k)"
    proof (rule Cons.IH)
      show "k < length table" using Cons.prems(1) Suc by simp
      show "ext \<in> set (snd (table ! k))" using Cons.prems(2) Suc by simp
      show "\<forall>j<k. ext \<notin> set (snd (table ! j))"
      proof (intro allI impI)
        fix j assume "j < k"
        then have "Suc j < i" using Suc by simp
        with Cons.prems(3) have "ext \<notin> set (snd ((p # table) ! Suc j))" by blast
        then show "ext \<notin> set (snd (table ! j))" by simp
      qed
    qed
    with notin p Suc show ?thesis by simp
  qed
qed

lemma for_folder_in_none:
  "\<forall>p \<in> set table. ext \<notin> set (snd p) \<Longrightarrow> for_folder_in table ext = ''outros''"
  by (induction table) auto

lemma for_folder_in_range:
  "for_folder_in table ext \<in> insert ''outros'' (fst ` set table)"
  by (induction table ext rule: for_folder_in.induct) auto

text \<open>
  Claim C1. \<^verbatim>\<open>getDestinationFolder\<close> is total: for an extension that occurs in the table
  it returns the first folder, in the table's order, whose array contains the extension;
  for an extension that occurs in no array it returns \<^verbatim>\<open>'outros'\<close>; and its result is
  always a folder of the table or \<^verbatim>\<open>'outros'\<close>.
\<close>

theorem getDestinationFolder_first_match:
  "(\<forall>i<length FOLDER_MAPPING.
      ext \<in> set (snd (FOLDER_MAPPING ! i)) \<and> (\<forall>j<i. ext \<notin> set (snd (FOLDER_MAPPING ! j)))
      \<longrightarrow> getDestinationFolder ext = fst (FOLDER_MAPPING ! i))
   \<and> ((\<forall>p\<in>set FOLDER_MAPPING. ext \<notin> set (snd p)) \<longrightarrow> getDestinationFolder ext = ''outros'')
   \<and> getDestinationFolder ext \<in> insert ''outros'' (fst ` set FOLDER_MAPPING)"
  unfolding getDestinationFolder_def
  using for_folder_in_first [of _ FOLDER_MAPPING ext] for_folder_in_none [of FOLDER_MAPPING ext]
    for_folder_in_range [of FOLDER_MAPPING ext]
  by blast

theorem getDestinationFolder_first_match_witness:
  "getDestinationFolder ''.mp3'' = ''audios'' \<and> getDestinationFolder ''.xyz'' = ''outros''"
proof -
  have len: "(3::nat) < length FOLDER_MAPPING" by (simp add: FOLDER_MAPPING_def)
  have mem: "''.mp3'' \<in> set (snd (FOLDER_MAPPING ! 3))" by (simp add: FOLDER_MAPPING_def)
  have first: "\<forall>j<3::nat. ''.mp3'' \<notin> set (snd (FOLDER_MAPPING ! j))"
    by (simp add: FOLDER_MAPPING_def numeral_3_eq_3 less_Suc_eq)
  have none: "\<forall>p\<in>set FOLDER_MAPPING. ''.xyz'' \<notin> set (snd p)"
    by (simp add: FOLDER_MAPPING_def)
  have "getDestinationFolder ''.mp3'' = fst (FOLDER_MAPPING ! 3)"
    using getDestinationFolder_first_match [of "''.mp3''"] len mem first by blast
  moreover have "fst (FOLDER_MAPPING ! 3) = ''audios''" by (simp add: FOLDER_MAPPING_def)
  moreover have "getDestinationFolder ''.xyz'' = ''outros''"
    using getDestinationFolder_first_match [of "''.xyz''"] none by blast
  ultimately show ?thesis by simp
qed

section \<open>Properties of extensions\<close>

lemma toLowerCase_char_dot: "toLowerCase_char c = CHR ''.'' \<longleftrightarrow> c = CHR ''.''"
  by (auto simp: toLowerCase_char_def split: if_splits)

lemma toLowerCase_Nil [simp]: "toLowerCase lc [] = []"
  by (simp add: toLowerCase_def)

lemma extname_no_dot: "CHR ''.'' \<notin> set name \<Longrightarrow> extname name = []"
proof -
  assume "CHR ''.'' \<notin> set name"
  then have tw: "takeWhile (\<lambda>c. c \<noteq> CHR ''.'') (rev name) = rev name"
    by (intro takeWhile_eq_all_conv [THEN iffD2]) auto
  show ?thesis unfolding extname_def tw by simp
qed

lemma extname_split:
  assumes "CHR ''.'' \<notin> set r"
  shows "extname (b @ CHR ''.'' # r) =
           (if b = [] \<or> b @ CHR ''.'' # r = ''..'' then [] else CHR ''.'' # r)"
proof -
  have "takeWhile (\<lambda>c. c \<noteq> CHR ''.'') (rev r @ CHR ''.'' # rev b) = rev r"
    using assms by (auto simp: takeWhile_tail)
  then have tw: "takeWhile (\<lambda>c. c \<noteq> CHR ''.'') (rev (b @ CHR ''.'' # r)) = rev r" by simp
  show ?thesis
    unfolding extname_def tw Let_def by auto
qed


section \<open>Calls, errors and the end of a run\<close>

lemmas run_defs =
  organizeDirectory_def catch_error_def loop_body_def fs_readdir_def fs_stat_def fs_mkdir_def
  fs_rename_def mkdir_p_def rename_into_def rename_errno_def same_file_def emit_def console_log_def
  console_error_def no_faults_def extname_def toLowerCase_def toLowerCase_char_def
  getDestinationFolder_def FOLDER_MAPPING_def Let_def

lemma files_emit [simp]: "files (emit ev w) = files w"
  by (simp add: emit_def)

lemma trace_emit [simp]: "trace (emit ev w) = trace w @ [ev]"
  by (simp add: emit_def)

lemma fs_readdir_world: "snd (fs_readdir flt w) = emit (Call Scandir) w"
  by (simp add: fs_readdir_def Let_def split: option.splits)

lemma fs_stat_world: "snd (fs_stat flt item w) = emit (Call (Stat item)) w"
  by (simp add: fs_stat_def Let_def split: option.splits node.splits)


lemma fs_stat_ok:
  "fs_stat flt item w = (Inr isDirectory, w') \<Longrightarrow>
     \<exists>d x. files w = Some d \<and> map_of d item = Some x \<and> (isDirectory \<longleftrightarrow> (\<exists>sub. x = Dir sub))"
  by (auto simp: fs_stat_def Let_def split: option.splits node.splits)

lemma fs_mkdir_failed:
  "fs_mkdir flt folder w = (Inl e, w') \<Longrightarrow> w' = emit (Call (Mkdir folder)) w \<and> failed e = Mkdir folder"
  by (auto simp: fs_mkdir_def Let_def split: option.splits sum.splits)

lemma fs_mkdir_ok:
  "fs_mkdir flt folder w = (Inr u, w') \<Longrightarrow>
     \<exists>d'. mkdir_p folder (case files w of None \<Rightarrow> [] | Some d \<Rightarrow> d) = Inr d' \<and>
          w' = (emit (Call (Mkdir folder)) w)\<lparr>files := Some d'\<rparr>"
  by (auto simp: fs_mkdir_def Let_def split: option.splits sum.splits)

lemma fs_rename_failed:
  "fs_rename flt item folder w = (Inl e, w') \<Longrightarrow>
     w' = emit (Call (Rename item folder)) w \<and> failed e = Rename item folder"
  by (auto simp: fs_rename_def Let_def split: option.splits sum.splits)

lemma fs_rename_ok:
  "fs_rename flt item folder w = (Inr u, w') \<Longrightarrow>
     \<exists>d d'. files w = Some d \<and> rename_into item folder d = Inr d' \<and>
          w' = (emit (Call (Rename item folder)) w)\<lparr>files := Some d'\<rparr>"
  by (auto simp: fs_rename_def Let_def split: option.splits sum.splits)

lemma mkdir_p_ok:
  "mkdir_p folder d = Inr d' \<Longrightarrow>
     d' = d \<and> (\<exists>sub. map_of d folder = Some (Dir sub)) \<or>
     d' = d @ [(folder, Dir [])] \<and> map_of d folder = None"
  by (auto simp: mkdir_p_def split: option.splits node.splits)


lemma catch_error_eq:
  "catch_error e w =
     w\<lparr>trace := trace w @ Stderr (ErrorOccurred e) #
        (if code e = ''ENOENT'' then [Stderr CheckPathHint] else [])\<rparr>"
  by (simp add: catch_error_def console_error_def emit_def)

text \<open>
  Claim C2. An error during organization ends the process with exit code 1, after an
  error message on standard error. Evaluated on a target directory that does not exist:
  the error line and the hint are written to standard error, and the exit code is 0,
  since \<^verbatim>\<open>organizeDirectory\<close> catches the error and the entry point sets no exit code
  after it.
\<close>

theorem organization_error_exit_code:
  "main id no_faults id [''node'', ''main.js'', ''/no/such/dir''] \<lparr>files = None, trace = []\<rparr> =
     (0, \<lparr>files = None,
          trace = [Stdout (Starting ''/no/such/dir''), Call Scandir,
                   Stderr (ErrorOccurred (Error ''ENOENT'' Scandir)), Stderr CheckPathHint]\<rparr>)"
  by (simp add: main_def organizeDirectory_def catch_error_def fs_readdir_def no_faults_def
      console_log_def console_error_def emit_def)








text \<open>
  Claim C4. When the initial listing fails with code \<^verbatim>\<open>ENOENT\<close> (the target directory
  does not exist), the run writes the error line and the hint to check the path, makes no
  call but the listing (no \<^verbatim>\<open>mkdir\<close>, no \<^verbatim>\<open>rename\<close>) and leaves the files as they were.
\<close>

theorem missing_directory_hint_no_mutation:
  assumes "fs_readdir flt (console_log (Starting p) w) = (Inl e, w1)" and "code e = ''ENOENT''"
  shows "organizeDirectory lc flt p w =
           w\<lparr>trace := trace w @ [Stdout (Starting p), Call Scandir, Stderr (ErrorOccurred e),
                                 Stderr CheckPathHint]\<rparr>"
proof -
  have "w1 = emit (Call Scandir) (console_log (Starting p) w)"
    using assms(1) fs_readdir_world [of flt "console_log (Starting p) w"] by simp
  then show ?thesis
    using assms by (simp add: organizeDirectory_def catch_error_eq console_log_def emit_def)
qed

theorem missing_directory_hint_no_mutation_witness:
  "fs_readdir no_faults (console_log (Starting ''/tmp/x'') \<lparr>files = None, trace = []\<rparr>) =
     (Inl (Error ''ENOENT'' Scandir),
      \<lparr>files = None, trace = [Stdout (Starting ''/tmp/x''), Call Scandir]\<rparr>) \<and>
   organizeDirectory id no_faults ''/tmp/x'' \<lparr>files = None, trace = []\<rparr> =
     \<lparr>files = None,
      trace = [Stdout (Starting ''/tmp/x''), Call Scandir,
               Stderr (ErrorOccurred (Error ''ENOENT'' Scandir)), Stderr CheckPathHint]\<rparr>"
proof -
  have h: "fs_readdir no_faults (console_log (Starting ''/tmp/x'') \<lparr>files = None, trace = []\<rparr>) =
     (Inl (Error ''ENOENT'' Scandir),
      \<lparr>files = None, trace = [Stdout (Starting ''/tmp/x''), Call Scandir]\<rparr>)"
    by (simp add: fs_readdir_def no_faults_def console_log_def emit_def)
  have c: "code (Error ''ENOENT'' Scandir) = ''ENOENT''" by simp
  show ?thesis using h missing_directory_hint_no_mutation [OF h c] by simp
qed

section \<open>The turns of the loop\<close>

lemma mkdir_p_map_of:
  assumes "mkdir_p f d = Inr d1"
  shows "(\<exists>sub. map_of d1 f = Some (Dir sub) \<and>
            (map_of d f = Some (Dir sub) \<or> map_of d f = None \<and> sub = [])) \<and>
         (\<forall>n. n \<noteq> f \<longrightarrow> map_of d1 n = map_of d n)"
  using mkdir_p_ok [OF assms] by (auto simp: map_add_def split: option.splits)

lemma rename_into_ok:
  assumes "rename_into item f d1 = Inr d2"
  obtains src sub where "map_of d1 item = Some src" "map_of d1 f = Some (Dir sub)" "item \<noteq> f"
    "same_file src (map_of sub item) \<and> d2 = d1 \<or>
     \<not> same_file src (map_of sub item) \<and> rename_errno src (map_of sub item) = None \<and>
       d2 = AList.update f (Dir (AList.update item src sub)) (AList.delete item d1)"
  using assms by (auto simp: rename_into_def split: option.splits node.splits if_splits)

lemma eligible_file: "eligible lc d n \<Longrightarrow> \<exists>c. map_of d n = Some (File c)"
  by (auto simp: eligible_def split: option.splits node.splits)

lemma loop_body_cases [consumes 1, case_names stat_failed skipped mkdir_failed rename_failed moved]:
  assumes d: "files w = Some d"
  obtains
    e where "loop_body lc flt item w = (Some e, emit (Call (Stat item)) w)"
  | "\<not> eligible lc d item" "map_of d item \<noteq> None"
      "loop_body lc flt item w = (None, emit (Call (Stat item)) w)"
  | e where "eligible lc d item"
      "loop_body lc flt item w =
         (Some e, emit (Call (Mkdir (folder_of lc item))) (emit (Call (Stat item)) w))"
  | e d1 where "eligible lc d item" "mkdir_p (folder_of lc item) d = Inr d1"
      "loop_body lc flt item w =
         (Some e, w\<lparr>files := Some d1,
                    trace := trace w @ [Call (Stat item), Call (Mkdir (folder_of lc item)),
                                        Call (Rename item (folder_of lc item))]\<rparr>)"
  | d1 d2 where "eligible lc d item" "mkdir_p (folder_of lc item) d = Inr d1"
      "rename_into item (folder_of lc item) d1 = Inr d2"
      "loop_body lc flt item w =
         (None, w\<lparr>files := Some d2,
                  trace := trace w @ [Call (Stat item), Call (Mkdir (folder_of lc item)),
                                      Call (Rename item (folder_of lc item)),
                                      Stdout (Moved item (folder_of lc item))]\<rparr>)"
proof -
  let ?f = "folder_of lc item"
  let ?w1 = "emit (Call (Stat item)) w"
  obtain r w1 where st: "fs_stat flt item w = (r, w1)" by (cases "fs_stat flt item w")
  then have w1: "w1 = ?w1" using fs_stat_world [of flt item w] by simp
  show ?thesis
  proof (cases r)
    case (Inl e)
    with st w1 have "loop_body lc flt item w = (Some e, ?w1)" by (simp add: loop_body_def)
    then show ?thesis by (rule that(1))
  next
    case (Inr isDirectory)
    from fs_stat_ok [OF st [unfolded Inr]] d obtain x where
      x: "map_of d item = Some x" and isd: "isDirectory \<longleftrightarrow> (\<exists>sub. x = Dir sub)" by auto
    show ?thesis
    proof (cases "eligible lc d item")
      case False
      with x isd have "isDirectory \<or> item = ''main.js'' \<or> toLowerCase lc (extname item) = []"
        by (cases x) (auto simp: eligible_def)
      with Inr st w1 have "loop_body lc flt item w = (None, ?w1)"
        by (auto simp: loop_body_def Let_def)
      with False x show ?thesis using that(2) by simp
    next
      case True
      with x isd have go: "\<not> isDirectory" "item \<noteq> ''main.js''" "toLowerCase lc (extname item) \<noteq> []"
        by (auto simp: eligible_def)
      obtain r2 w2 where mk: "fs_mkdir flt ?f ?w1 = (r2, w2)" by (cases "fs_mkdir flt ?f ?w1")
      show ?thesis
      proof (cases r2)
        case (Inl e)
        with fs_mkdir_failed [of flt ?f ?w1 e w2] mk have "w2 = emit (Call (Mkdir ?f)) ?w1" by simp
        with Inl \<open>r = Inr isDirectory\<close> st w1 go mk
        have "loop_body lc flt item w = (Some e, emit (Call (Mkdir ?f)) ?w1)"
          by (simp add: loop_body_def Let_def)
        with True show ?thesis using that(3) by simp
      next
        case (Inr u)
        from fs_mkdir_ok [OF mk [unfolded Inr]] d obtain d1 where
          d1: "mkdir_p ?f d = Inr d1" and w2: "w2 = (emit (Call (Mkdir ?f)) ?w1)\<lparr>files := Some d1\<rparr>"
          by auto
        obtain r3 w3 where rn: "fs_rename flt item ?f w2 = (r3, w3)"
          by (cases "fs_rename flt item ?f w2")
        have body: "loop_body lc flt item w =
            (case r3 of Inl e \<Rightarrow> (Some e, w3)
             | Inr u' \<Rightarrow> (None, console_log (Moved item ?f) w3))"
          using Inr \<open>r = Inr isDirectory\<close> st w1 go mk rn
          by (simp add: loop_body_def Let_def split: sum.splits)
        show ?thesis
        proof (cases r3)
          case (Inl e)
          with fs_rename_failed [of flt item ?f w2 e w3] rn
          have "w3 = emit (Call (Rename item ?f)) w2" by simp
          with w2 have "w3 = w\<lparr>files := Some d1,
              trace := trace w @ [Call (Stat item), Call (Mkdir ?f), Call (Rename item ?f)]\<rparr>"
            by (simp add: emit_def)
          with body Inl True d1 show ?thesis using that(4) by simp
        next
          case (Inr u')
          from fs_rename_ok [OF rn [unfolded Inr]] w2 obtain d2 where
            d2: "rename_into item ?f d1 = Inr d2"
            and w3: "w3 = (emit (Call (Rename item ?f)) w2)\<lparr>files := Some d2\<rparr>"
            by auto
          from w3 w2 have "console_log (Moved item ?f) w3 = w\<lparr>files := Some d2,
              trace := trace w @ [Call (Stat item), Call (Mkdir ?f), Call (Rename item ?f),
                                  Stdout (Moved item ?f)]\<rparr>"
            by (simp add: emit_def console_log_def)
          with body Inr True d1 d2 show ?thesis using that(5) by simp
        qed
      qed
    qed
  qed
qed

text \<open>
  A successful \<^verbatim>\<open>rename\<close> of a file after \<^verbatim>\<open>mkdir\<close>: either the destination was
  already that file, and nothing changes, or the file goes from the target directory into
  the folder.
\<close>

lemma move_cases [consumes 3, case_names linked real]:
  assumes "mkdir_p f d = Inr d1" "rename_into item f d1 = Inr d2" "map_of d item = Some (File c)"
  obtains sub where "map_of d f = Some (Dir sub)" "map_of sub item = Some (File c)"
      "item \<noteq> f" "d2 = d"
  | sub where "item \<noteq> f"
      "map_of d f = Some (Dir sub) \<or> map_of d f = None \<and> sub = []"
      "map_of sub item \<noteq> Some (File c)"
      "\<forall>t. map_of sub item \<noteq> Some (Dir t)"
      "map_of d2 f = Some (Dir (AList.update item (File c) sub))"
      "map_of d2 item = None"
      "\<forall>n. n \<noteq> item \<longrightarrow> n \<noteq> f \<longrightarrow> map_of d2 n = map_of d n"
      "map_of d1 f = Some (Dir sub)" "map_of d1 item = Some (File c)"
      "d2 = AList.update f (Dir (AList.update item (File c) sub)) (AList.delete item d1)"
proof -
  from rename_into_ok [OF assms(2)] obtain src sub where
    src: "map_of d1 item = Some src" and sub: "map_of d1 f = Some (Dir sub)" and ne: "item \<noteq> f"
    and how: "same_file src (map_of sub item) \<and> d2 = d1 \<or>
       \<not> same_file src (map_of sub item) \<and> rename_errno src (map_of sub item) = None \<and>
         d2 = AList.update f (Dir (AList.update item src sub)) (AList.delete item d1)"
    by blast
  from mkdir_p_map_of [OF assms(1)] sub have
    old: "map_of d f = Some (Dir sub) \<or> map_of d f = None \<and> sub = []"
    and frame: "\<forall>n. n \<noteq> f \<longrightarrow> map_of d1 n = map_of d n" by auto
  from frame ne src assms(3) have isfile: "src = File c" by auto
  show ?thesis
  proof (cases "same_file src (map_of sub item)")
    case True
    with isfile have there: "map_of sub item = Some (File c)"
      by (auto simp: same_file_def split: option.splits node.splits)
    with old have existed: "map_of d f = Some (Dir sub)" by auto
    with mkdir_p_ok [OF assms(1)] have "d1 = d" by auto
    with True how have "d2 = d" by auto
    with existed there ne show ?thesis by (rule that(1))
  next
    case False
    with how have errno: "rename_errno src (map_of sub item) = None"
      and d2: "d2 = AList.update f (Dir (AList.update item src sub)) (AList.delete item d1)"
      by auto
    from False isfile have notsame: "map_of sub item \<noteq> Some (File c)"
      by (auto simp: same_file_def)
    from errno isfile have nodir: "\<forall>t. map_of sub item \<noteq> Some (Dir t)"
      by (auto simp: rename_errno_def split: option.splits node.splits)
    have "map_of d2 f = Some (Dir (AList.update item (File c) sub))"
      using d2 isfile by (simp add: update_conv')
    moreover have "map_of d2 item = None"
      using d2 ne by (simp add: update_conv' delete_conv')
    moreover have "\<forall>n. n \<noteq> item \<longrightarrow> n \<noteq> f \<longrightarrow> map_of d2 n = map_of d n"
      using d2 frame by (simp add: update_conv' delete_conv')
    ultimately show ?thesis using that(2) ne old notsame nodir sub src isfile d2 by blast
  qed
qed



lemma still_refl: "still x x"
  by (cases x) (simp_all add: still_def)

lemma still_trans: "still x y \<Longrightarrow> still y z \<Longrightarrow> still x z"
  by (cases x; cases y; cases z) (simp_all add: still_def)

lemma still_eligible:
  "map_of d n = Some x \<Longrightarrow> map_of d' n = Some x' \<Longrightarrow> still x x' \<Longrightarrow> eligible lc d' n = eligible lc d n"
  by (cases x; cases x') (simp_all add: still_def eligible_def)

lemma since_extend: "trace w' = trace w @ evs \<Longrightarrow> since w w' = evs"
  by (simp add: since_def)

text \<open>An entry that the turn does not move is still there after the turn.\<close>

lemma entry_kept_body:
  assumes d: "files w = Some d" and x: "map_of d n = Some x"
    and other: "m \<noteq> n \<or> \<not> eligible lc d n"
    and body: "loop_body lc flt m w = (r, w')"
  shows "\<exists>d' x'. files w' = Some d' \<and> map_of d' n = Some x' \<and> still x x' \<and>
           (\<forall>f. Call (Rename n f) \<notin> set (since w w'))"
  using d
proof (cases rule: loop_body_cases [where lc = lc and flt = flt and item = m])
  case (stat_failed e)
  with body d x show ?thesis by (auto simp: still_refl since_def)
next
  case skipped
  with body d x show ?thesis by (auto simp: still_refl since_def)
next
  case (mkdir_failed e)
  with body d x show ?thesis by (auto simp: still_refl since_def)
next
  case (rename_failed e d1)
  with other have ne: "m \<noteq> n" by auto
  have "\<exists>x'. map_of d1 n = Some x' \<and> still x x'"
  proof (cases "n = folder_of lc m")
    case True
    with mkdir_p_map_of [OF rename_failed(2)] x have "map_of d1 n = Some x" by auto
    then show ?thesis using still_refl by blast
  next
    case False
    with mkdir_p_map_of [OF rename_failed(2)] x have "map_of d1 n = Some x" by auto
    then show ?thesis using still_refl by blast
  qed
  with rename_failed body ne show ?thesis by (auto simp: since_def)
next
  case (moved d1 d2)
  with other have ne: "m \<noteq> n" by auto
  from eligible_file [OF moved(1)] obtain c where c: "map_of d m = Some (File c)" by blast
  have "\<exists>x'. map_of d2 n = Some x' \<and> still x x'"
    using moved(2,3) c
  proof (cases rule: move_cases)
    case (linked sub)
    with x show ?thesis using still_refl by blast
  next
    case (real sub)
    show ?thesis
    proof (cases "n = folder_of lc m")
      case True
      with real(2) x have "x = Dir sub" by auto
      with True real(5) show ?thesis by (simp add: still_def)
    next
      case False
      with real(7) ne x have "map_of d2 n = Some x" by simp
      then show ?thesis using still_refl by blast
    qed
  qed
  with moved body ne show ?thesis by (auto simp: since_def)
qed


text \<open>Invariants of the loop: over every turn, and over the turns of a run that succeeds.\<close>

lemma for_items_invariant:
  assumes "for_items lc flt items w = (r, w')" and "I w"
    and "\<And>m v r1 v1. I v \<Longrightarrow> loop_body lc flt m v = (r1, v1) \<Longrightarrow> I v1"
  shows "I w'"
  using assms(1,2)
proof (induction items arbitrary: w)
  case Nil
  then show ?case by simp
next
  case (Cons m items)
  obtain r1 w1 where b: "loop_body lc flt m w = (r1, w1)" by (cases "loop_body lc flt m w")
  with Cons.prems(2) assms(3) have I1: "I w1" by blast
  show ?case
  proof (cases r1)
    case None
    with b Cons.prems(1) have "for_items lc flt items w1 = (r, w')" by simp
    with I1 Cons.IH show ?thesis by blast
  next
    case (Some e)
    with b Cons.prems(1) have "w' = w1" by simp
    with I1 show ?thesis by simp
  qed
qed


section \<open>Entries the run leaves alone\<close>

lemma loop_body_extends:
  assumes d: "files w = Some d" and body: "loop_body lc flt m w = (r, w')"
  shows "(\<exists>d'. files w' = Some d') \<and> trace w' = trace w @ since w w'"
  using d
proof (cases rule: loop_body_cases [where lc = lc and flt = flt and item = m])
qed (use body d in \<open>auto simp: since_def\<close>)

lemma entry_kept_run:
  assumes d: "files w = Some d" and x: "map_of d n = Some x" and n: "\<not> eligible lc d n"
    and run: "for_items lc flt items w = (r, w')"
  shows "\<exists>d' x'. files w' = Some d' \<and> map_of d' n = Some x' \<and> still x x' \<and>
           trace w' = trace w @ since w w' \<and>
           (\<forall>f. Call (Rename n f) \<notin> set (since w w'))"
proof -
  let ?I = "\<lambda>v. \<exists>d' x'. files v = Some d' \<and> map_of d' n = Some x' \<and> still x x' \<and>
           trace v = trace w @ since w v \<and> (\<forall>f. Call (Rename n f) \<notin> set (since w v))"
  have start: "?I w" using d x by (auto simp: still_refl since_def)
  show ?thesis
  proof (rule for_items_invariant [where I = ?I, OF run start])
    fix m v r1 v1
    assume v: "?I v" and body: "loop_body lc flt m v = (r1, v1)"
    from v obtain dv xv where dv: "files v = Some dv" and xv: "map_of dv n = Some xv"
      and st: "still x xv" and tr: "trace v = trace w @ since w v"
      and nr: "\<forall>f. Call (Rename n f) \<notin> set (since w v)" by blast
    from still_eligible [OF x xv st] n have "\<not> eligible lc dv n" by simp
    then have "m \<noteq> n \<or> \<not> eligible lc dv n" by simp
    from entry_kept_body [OF dv xv this body] obtain d1 x1 where
      d1: "files v1 = Some d1" "map_of d1 n = Some x1" "still xv x1"
      and nr1: "\<forall>f. Call (Rename n f) \<notin> set (since v v1)" by blast
    from loop_body_extends [OF dv body] have tr1: "trace v1 = trace v @ since v v1" by simp
    with tr have "trace v1 = trace w @ (since w v @ since v v1)" by simp
    then have s: "since w v1 = since w v @ since v v1" by (rule since_extend)
    with d1 st nr nr1 tr tr1 show "?I v1" using still_trans by auto
  qed
qed

lemma catch_error_simps [simp]:
  "files (catch_error e w) = files w"
  "trace (catch_error e w) =
     trace w @ Stderr (ErrorOccurred e) # (if code e = ''ENOENT'' then [Stderr CheckPathHint] else [])"
  by (simp_all add: catch_error_eq)

lemma console_log_simps [simp]:
  "files (console_log l w) = files w" "trace (console_log l w) = trace w @ [Stdout l]"
  by (simp_all add: console_log_def)

text \<open>The two ways a run goes on an existing directory.\<close>

lemma organizeDirectory_cases [consumes 1, case_names listing_failed listed]:
  assumes d: "files w = Some d"
  obtains e where "organizeDirectory lc flt p w =
        catch_error e (emit (Call Scandir) (console_log (Starting p) w))"
  | r w2 where "flt Scandir = None"
      "for_items lc flt (map fst d) (emit (Call Scandir) (console_log (Starting p) w)) = (r, w2)"
      "organizeDirectory lc flt p w =
         (case r of None \<Rightarrow> console_log Finished w2 | Some e \<Rightarrow> catch_error e w2)"
proof (cases "flt Scandir")
  case (Some c)
  then have "organizeDirectory lc flt p w =
      catch_error (Error c Scandir) (emit (Call Scandir) (console_log (Starting p) w))"
    by (simp add: organizeDirectory_def fs_readdir_def)
  then show ?thesis by (rule that(1))
next
  case None
  obtain r w2 where
    run: "for_items lc flt (map fst d) (emit (Call Scandir) (console_log (Starting p) w)) = (r, w2)"
    by (cases "for_items lc flt (map fst d) (emit (Call Scandir) (console_log (Starting p) w))")
  with None d have "organizeDirectory lc flt p w =
      (case r of None \<Rightarrow> console_log Finished w2 | Some e \<Rightarrow> catch_error e w2)"
    by (simp add: organizeDirectory_def fs_readdir_def split: option.splits)
  with None run show ?thesis by (rule that(2))
qed

lemma entry_kept_organize:
  assumes d: "files w = Some d" and x: "map_of d n = Some x" and n: "\<not> eligible lc d n"
  shows "(\<forall>f. Call (Rename n f) \<notin> set (since w (organizeDirectory lc flt p w))) \<and>
         (\<exists>d' x'. files (organizeDirectory lc flt p w) = Some d' \<and> map_of d' n = Some x' \<and> still x x')"
  using d
proof (cases rule: organizeDirectory_cases [where lc = lc and flt = flt and p = p])
  case (listing_failed e)
  with d x show ?thesis by (auto simp: since_def still_refl)
next
  case (listed r w2)
  let ?w1 = "emit (Call Scandir) (console_log (Starting p) w)"
  have d1: "files ?w1 = Some d" using d by simp
  from entry_kept_run [OF d1 x n listed(2)] obtain d' x' where
    kept: "files w2 = Some d'" "map_of d' n = Some x'" "still x x'"
    and tr: "trace w2 = trace ?w1 @ since ?w1 w2"
    and nr: "\<forall>f. Call (Rename n f) \<notin> set (since ?w1 w2)" by blast
  from tr have tr2: "trace w2 = trace w @ Stdout (Starting p) # Call Scandir # since ?w1 w2"
    by simp
  show ?thesis
  proof (cases r)
    case None
    with listed(3) tr2 have "trace (organizeDirectory lc flt p w) =
        trace w @ (Stdout (Starting p) # Call Scandir # since ?w1 w2 @ [Stdout Finished])"
      by simp
    then have "since w (organizeDirectory lc flt p w) =
        Stdout (Starting p) # Call Scandir # since ?w1 w2 @ [Stdout Finished]"
      by (rule since_extend)
    with None listed(3) kept nr show ?thesis by auto
  next
    case (Some e)
    with listed(3) tr2 have "trace (organizeDirectory lc flt p w) =
        trace w @ (Stdout (Starting p) # Call Scandir # since ?w1 w2 @
          Stderr (ErrorOccurred e) # (if code e = ''ENOENT'' then [Stderr CheckPathHint] else []))"
      by simp
    then have "since w (organizeDirectory lc flt p w) =
        Stdout (Starting p) # Call Scandir # since ?w1 w2 @
          Stderr (ErrorOccurred e) # (if code e = ''ENOENT'' then [Stderr CheckPathHint] else [])"
      by (rule since_extend)
    with Some listed(3) kept nr show ?thesis by auto
  qed
qed

lemma skipped_turn:
  assumes d: "files w = Some d" and n: "\<not> eligible lc d n"
  shows "snd (loop_body lc flt n w) = emit (Call (Stat n)) w"
  using d
proof (cases rule: loop_body_cases [where lc = lc and flt = flt and item = n])
qed (use n in auto)

text \<open>
  Claim C5. An entry of the target directory that is a directory, or whose name is
  \<^verbatim>\<open>main.js\<close>, is skipped whatever its extension: its turn of the loop makes the
  \<^verbatim>\<open>stat\<close> call and nothing else (no \<^verbatim>\<open>mkdir\<close>, no \<^verbatim>\<open>rename\<close>), no call of the run
  renames it, and after the run it is still an entry of the target directory.
\<close>

theorem directories_and_script_skipped:
  assumes "files w = Some d" and "map_of d name = Some x"
    and "(\<exists>sub. x = Dir sub) \<or> name = ''main.js''"
  shows "snd (loop_body lc flt name w) = emit (Call (Stat name)) w \<and>
         (\<forall>folder. Call (Rename name folder) \<notin> set (since w (organizeDirectory lc flt p w))) \<and>
         (\<exists>d' x'. files (organizeDirectory lc flt p w) = Some d' \<and> map_of d' name = Some x' \<and>
            still x x')"
proof -
  from assms(2,3) have "\<not> eligible lc d name" by (auto simp: eligible_def)
  with assms(1,2) show ?thesis using skipped_turn entry_kept_organize by simp
qed

theorem directories_and_script_skipped_witness:
  "let w = \<lparr>files = Some [(''fotos.jpg'', Dir [(''x'', File 1)]), (''main.js'', File 2),
                          (''a.png'', File 3)], trace = []\<rparr>
   in (snd (loop_body id no_faults ''fotos.jpg'' w) = emit (Call (Stat ''fotos.jpg'')) w \<and>
       (\<forall>folder. Call (Rename ''fotos.jpg'' folder) \<notin>
           set (since w (organizeDirectory id no_faults ''/t'' w))) \<and>
       (\<exists>d' x'. files (organizeDirectory id no_faults ''/t'' w) = Some d' \<and>
           map_of d' ''fotos.jpg'' = Some x' \<and> still (Dir [(''x'', File 1)]) x')) \<and>
      (snd (loop_body id no_faults ''main.js'' w) = emit (Call (Stat ''main.js'')) w \<and>
       (\<forall>folder. Call (Rename ''main.js'' folder) \<notin>
           set (since w (organizeDirectory id no_faults ''/t'' w))) \<and>
       (\<exists>d' x'. files (organizeDirectory id no_faults ''/t'' w) = Some d' \<and>
           map_of d' ''main.js'' = Some x' \<and> still (File 2) x'))"
proof -
  let ?d = "[(''fotos.jpg'', Dir [(''x'', File 1)]), (''main.js'', File 2),
             (''a.png'', File 3)]"
  let ?w = "\<lparr>files = Some ?d, trace = []\<rparr>"
  have listed: "files ?w = Some ?d" by simp
  have folder: "map_of ?d ''fotos.jpg'' = Some (Dir [(''x'', File 1)])" by simp
  have isdir: "(\<exists>sub. Dir [(''x'', File 1)] = Dir sub) \<or> ''fotos.jpg'' = ''main.js''" by simp
  have script: "map_of ?d ''main.js'' = Some (File 2)" by simp
  have isscript: "(\<exists>sub. File 2 = Dir sub) \<or> ''main.js'' = ''main.js''" by simp
  show ?thesis
    unfolding Let_def
    by (rule conjI [OF directories_and_script_skipped [OF listed folder isdir]
          directories_and_script_skipped [OF listed script isscript]])
qed

text \<open>
  Claim C6. A file whose name has no dot, or whose only dot is its first character, has an
  empty extension and is skipped: its turn makes the \<^verbatim>\<open>stat\<close> call and nothing else,
  no call of the run renames it, and after the run it is in the target directory with
  the same file.
\<close>

theorem no_extension_left_in_place:
  assumes "files w = Some d" and "map_of d name = Some (File c)"
    and "CHR ''.'' \<notin> set name \<or> (\<exists>r. name = CHR ''.'' # r \<and> CHR ''.'' \<notin> set r)"
  shows "extname name = [] \<and>
         snd (loop_body lc flt name w) = emit (Call (Stat name)) w \<and>
         (\<forall>folder. Call (Rename name folder) \<notin> set (since w (organizeDirectory lc flt p w))) \<and>
         (\<exists>d'. files (organizeDirectory lc flt p w) = Some d' \<and> map_of d' name = Some (File c))"
proof -
  have ext: "extname name = []"
  proof (cases "CHR ''.'' \<in> set name")
    case False
    then show ?thesis by (rule extname_no_dot)
  next
    case True
    with assms(3) obtain r where "name = [] @ CHR ''.'' # r" "CHR ''.'' \<notin> set r" by auto
    then show ?thesis using extname_split [of r "[]"] by simp
  qed
  then have n: "\<not> eligible lc d name" by (simp add: eligible_def)
  from entry_kept_organize [OF assms(1,2) n, where flt = flt and p = p]
    skipped_turn [OF assms(1) n, where flt = flt] ext
  show ?thesis by (auto simp: still_def)
qed

theorem no_extension_left_in_place_witness:
  "let w = \<lparr>files = Some [(''README'', File 4), (''.gitignore'', File 5),
                          (''a.png'', File 3)], trace = []\<rparr>
   in (extname ''.gitignore'' = [] \<and>
       snd (loop_body id no_faults ''.gitignore'' w) = emit (Call (Stat ''.gitignore'')) w \<and>
       (\<forall>folder. Call (Rename ''.gitignore'' folder) \<notin>
           set (since w (organizeDirectory id no_faults ''/t'' w))) \<and>
       (\<exists>d'. files (organizeDirectory id no_faults ''/t'' w) = Some d' \<and>
           map_of d' ''.gitignore'' = Some (File 5))) \<and>
      (extname ''README'' = [] \<and>
       snd (loop_body id no_faults ''README'' w) = emit (Call (Stat ''README'')) w \<and>
       (\<forall>folder. Call (Rename ''README'' folder) \<notin>
           set (since w (organizeDirectory id no_faults ''/t'' w))) \<and>
       (\<exists>d'. files (organizeDirectory id no_faults ''/t'' w) = Some d' \<and>
           map_of d' ''README'' = Some (File 4)))"
proof -
  let ?d = "[(''README'', File 4), (''.gitignore'', File 5), (''a.png'', File 3)]"
  let ?w = "\<lparr>files = Some ?d, trace = []\<rparr>"
  have listed: "files ?w = Some ?d" by simp
  have dotfile: "map_of ?d ''.gitignore'' = Some (File 5)" by simp
  have onlydot: "CHR ''.'' \<notin> set ''.gitignore'' \<or>
      (\<exists>r. ''.gitignore'' = CHR ''.'' # r \<and> CHR ''.'' \<notin> set r)" by simp
  have plain: "map_of ?d ''README'' = Some (File 4)" by simp
  have nodot: "CHR ''.'' \<notin> set ''README'' \<or>
      (\<exists>r. ''README'' = CHR ''.'' # r \<and> CHR ''.'' \<notin> set r)" by simp
  show ?thesis
    unfolding Let_def
    by (rule conjI [OF no_extension_left_in_place [OF listed dotfile onlydot]
          no_extension_left_in_place [OF listed plain nodot]])
qed

section \<open>A second run\<close>

lemma catch_error_last: "last (trace (catch_error e w)) \<noteq> Stdout Finished"
  by simp

lemma organizeDirectory_success:
  assumes "last (trace (organizeDirectory lc flt p w)) = Stdout Finished"
  obtains d w2 where "files w = Some d"
    "for_items lc flt (map fst d) (emit (Call Scandir) (console_log (Starting p) w)) = (None, w2)"
    "organizeDirectory lc flt p w = console_log Finished w2"
proof (cases "files w")
  case None
  then have "\<exists>e. organizeDirectory lc flt p w =
      catch_error e (emit (Call Scandir) (console_log (Starting p) w))"
    by (cases "flt Scandir") (auto simp: organizeDirectory_def fs_readdir_def Let_def)
  with assms catch_error_last show ?thesis by metis
next
  case (Some d)
  then show ?thesis
  proof (cases rule: organizeDirectory_cases [where lc = lc and flt = flt and p = p])
    case (listing_failed e)
    with assms catch_error_last show ?thesis by metis
  next
    case (listed r w2)
    show ?thesis
    proof (cases r)
      case None
      with listed Some show ?thesis using that by simp
    next
      case (Some e)
      with listed have "organizeDirectory lc flt p w = catch_error e w2" by simp
      with assms catch_error_last show ?thesis by metis
    qed
  qed
qed

text \<open>
  Destinations that are not links to their sources stay so: over \<^verbatim>\<open>mkdir\<close>, and over a
  move, which under this condition takes the file out of the target directory.
\<close>

lemma unlinked_destinations_D:
  assumes "unlinked_destinations lc d"
  shows "\<forall>n c sub. eligible lc d n \<longrightarrow> map_of d n = Some (File c) \<longrightarrow>
           map_of d (folder_of lc n) = Some (Dir sub) \<longrightarrow> map_of sub n \<noteq> Some (File c)"
proof (intro allI impI)
  fix n c sub
  assume e: "eligible lc d n" and c: "map_of d n = Some (File c)"
    and s: "map_of d (folder_of lc n) = Some (Dir sub)"
  from c have "(n, File c) \<in> set d" by (rule map_of_SomeD)
  with assms e s show "map_of sub n \<noteq> Some (File c)"
    by (auto simp: unlinked_destinations_def list_all_iff)
qed


lemma unlinked_move:
  assumes ul: "\<forall>n c sub. eligible lc d n \<longrightarrow> map_of d n = Some (File c) \<longrightarrow>
           map_of d (folder_of lc n) = Some (Dir sub) \<longrightarrow> map_of sub n \<noteq> Some (File c)"
    and e: "eligible lc d m" and mk: "mkdir_p (folder_of lc m) d = Inr d1"
    and rn: "rename_into m (folder_of lc m) d1 = Inr d2" and c: "map_of d m = Some (File c)"
  shows "map_of d2 m = None \<and>
         (\<exists>sub. map_of d2 (folder_of lc m) = Some (Dir (AList.update m (File c) sub))) \<and>
         (\<forall>n. n \<noteq> m \<longrightarrow> n \<noteq> folder_of lc m \<longrightarrow> map_of d2 n = map_of d n) \<and>
         (\<forall>n c sub. eligible lc d2 n \<longrightarrow> map_of d2 n = Some (File c) \<longrightarrow>
           map_of d2 (folder_of lc n) = Some (Dir sub) \<longrightarrow> map_of sub n \<noteq> Some (File c))"
  using mk rn c
proof (cases rule: move_cases)
  case (linked sub)
  with ul e c show ?thesis by blast
next
  case (real sub0)
  have "\<forall>n c sub. eligible lc d2 n \<longrightarrow> map_of d2 n = Some (File c) \<longrightarrow>
           map_of d2 (folder_of lc n) = Some (Dir sub) \<longrightarrow> map_of sub n \<noteq> Some (File c)"
  proof (intro allI impI)
    fix n c' sub
    assume e2: "eligible lc d2 n" and c2: "map_of d2 n = Some (File c')"
      and s2: "map_of d2 (folder_of lc n) = Some (Dir sub)"
    from c2 real(5,6) have nm: "n \<noteq> m" and nf: "n \<noteq> folder_of lc m" by auto
    with real(7) c2 have cn: "map_of d n = Some (File c')" by simp
    with e2 have en: "eligible lc d n" by (simp add: eligible_def)
    show "map_of sub n \<noteq> Some (File c')"
    proof (cases "folder_of lc n = folder_of lc m")
      case True
      with s2 real(5) have sub: "sub = AList.update m (File c) sub0" by simp
      from real(2) have "map_of sub0 n \<noteq> Some (File c')"
      proof
        assume "map_of d (folder_of lc m) = Some (Dir sub0)"
        with ul en cn True show ?thesis by metis
      next
        assume "map_of d (folder_of lc m) = None \<and> sub0 = []"
        then show ?thesis by simp
      qed
      with sub nm show ?thesis by (simp add: update_conv')
    next
      case False
      from s2 real(6) have "folder_of lc n \<noteq> m" by auto
      with False real(7) s2 have "map_of d (folder_of lc n) = Some (Dir sub)" by simp
      with ul en cn show ?thesis by blast
    qed
  qed
  with real(5,6,7) show ?thesis by blast
qed

text \<open>A run that succeeds on such a directory leaves no entry that the loop would move.\<close>

lemma success_leaves_none_eligible:
  assumes "files w = Some d" and "for_items lc flt items w = (None, w')"
    and "\<forall>n. eligible lc d n \<longrightarrow> n \<in> set items"
    and "\<forall>n c sub. eligible lc d n \<longrightarrow> map_of d n = Some (File c) \<longrightarrow>
           map_of d (folder_of lc n) = Some (Dir sub) \<longrightarrow> map_of sub n \<noteq> Some (File c)"
  shows "\<exists>d'. files w' = Some d' \<and> (\<forall>n. \<not> eligible lc d' n)"
  using assms
proof (induction items arbitrary: w d)
  case Nil
  then show ?case by simp
next
  case (Cons m items)
  note d = Cons.prems(1)
  from d show ?case
  proof (cases rule: loop_body_cases [where lc = lc and flt = flt and item = m])
    case (stat_failed e)
    with Cons.prems(2) show ?thesis by simp
  next
    case skipped
    with Cons.prems(2) have run: "for_items lc flt items (emit (Call (Stat m)) w) = (None, w')"
      by simp
    have rest: "\<forall>n. eligible lc d n \<longrightarrow> n \<in> set items" using Cons.prems(3) skipped(1) by auto
    have "files (emit (Call (Stat m)) w) = Some d" using d by simp
    from Cons.IH [OF this run rest Cons.prems(4)] show ?thesis .
  next
    case (mkdir_failed e)
    with Cons.prems(2) show ?thesis by simp
  next
    case (rename_failed e d1)
    with Cons.prems(2) show ?thesis by simp
  next
    case (moved d1 d2)
    let ?w1 = "w\<lparr>files := Some d2,
        trace := trace w @ [Call (Stat m), Call (Mkdir (folder_of lc m)),
          Call (Rename m (folder_of lc m)), Stdout (Moved m (folder_of lc m))]\<rparr>"
    from moved Cons.prems(2) have run: "for_items lc flt items ?w1 = (None, w')" by simp
    from eligible_file [OF moved(1)] obtain c where c: "map_of d m = Some (File c)" by blast
    from unlinked_move [OF Cons.prems(4) moved(1,2,3) c] obtain sub where
      gone: "map_of d2 m = None"
      and new: "map_of d2 (folder_of lc m) = Some (Dir (AList.update m (File c) sub))"
      and frame: "\<forall>n. n \<noteq> m \<longrightarrow> n \<noteq> folder_of lc m \<longrightarrow> map_of d2 n = map_of d n"
      and ul2: "\<forall>n c sub. eligible lc d2 n \<longrightarrow> map_of d2 n = Some (File c) \<longrightarrow>
           map_of d2 (folder_of lc n) = Some (Dir sub) \<longrightarrow> map_of sub n \<noteq> Some (File c)"
      by blast
    have all2: "\<forall>n. eligible lc d2 n \<longrightarrow> n \<in> set items"
    proof (intro allI impI)
      fix n assume e2: "eligible lc d2 n"
      then obtain c' where "map_of d2 n = Some (File c')" using eligible_file by blast
      with new gone have "n \<noteq> m" "n \<noteq> folder_of lc m" by auto
      with frame have "map_of d2 n = map_of d n" by simp
      with e2 have "eligible lc d n" by (simp add: eligible_def)
      with Cons.prems(3) \<open>n \<noteq> m\<close> show "n \<in> set items" by auto
    qed
    have "files ?w1 = Some d2" by simp
    from Cons.IH [OF this run all2 ul2] show ?thesis .
  qed
qed

text \<open>Where no entry is eligible, the loop only makes \<^verbatim>\<open>stat\<close> calls.\<close>

lemma none_eligible_only_stats:
  assumes d: "files w = Some d" and none: "\<forall>n. \<not> eligible lc d n"
    and run: "for_items lc flt items w = (r, w')"
  shows "files w' = Some d \<and> trace w' = trace w @ since w w' \<and>
         (\<forall>ev \<in> set (since w w'). \<exists>n. ev = Call (Stat n))"
proof -
  let ?I = "\<lambda>v. files v = Some d \<and> trace v = trace w @ since w v \<and>
         (\<forall>ev \<in> set (since w v). \<exists>n. ev = Call (Stat n))"
  have start: "?I w" using d by (simp add: since_def)
  show ?thesis
  proof (rule for_items_invariant [where I = ?I, OF run start])
    fix m v r1 v1
    assume v: "?I v" and body: "loop_body lc flt m v = (r1, v1)"
    then have dv: "files v = Some d" by simp
    have "v1 = emit (Call (Stat m)) v"
      using dv
    proof (cases rule: loop_body_cases [where lc = lc and flt = flt and item = m])
    qed (use none body in auto)
    with v have "trace v1 = trace w @ (since w v @ [Call (Stat m)])" "files v1 = Some d" by simp_all
    moreover from this(1) have "since w v1 = since w v @ [Call (Stat m)]" by (rule since_extend)
    ultimately show "?I v1" using v by auto
  qed
qed

text \<open>
  Claim C8, as stated for every directory state, fails where an entry and the entry of
  that name in its folder are one file (a hard link, or a folder that links back to the
  target directory): \<^verbatim>\<open>rename\<close> then succeeds and does nothing, the run ends with the
  success line, and the second run makes the same \<^verbatim>\<open>mkdir\<close> and \<^verbatim>\<open>rename\<close> calls and
  prints the same line again.
\<close>

theorem organizer_idempotent_counterexample:
  "last (trace (organizeDirectory id no_faults ''/t''
      \<lparr>files = Some [(''a.txt'', File 1), (''documentos'', Dir [(''a.txt'', File 1)])],
       trace = []\<rparr>)) = Stdout Finished \<and>
   since
     (organizeDirectory id no_faults ''/t''
        \<lparr>files = Some [(''a.txt'', File 1), (''documentos'', Dir [(''a.txt'', File 1)])],
         trace = []\<rparr>)
     (organizeDirectory id no_faults ''/t''
        (organizeDirectory id no_faults ''/t''
           \<lparr>files = Some [(''a.txt'', File 1), (''documentos'', Dir [(''a.txt'', File 1)])],
            trace = []\<rparr>)) =
   [Stdout (Starting ''/t''), Call Scandir, Call (Stat ''a.txt''), Call (Mkdir ''documentos''),
    Call (Rename ''a.txt'' ''documentos''), Stdout (Moved ''a.txt'' ''documentos''),
    Call (Stat ''documentos''), Stdout Finished]"
  by (simp add: since_def run_defs)

text \<open>
  Claim C8, amended. Let no entry that the loop would move have, in its folder, an entry
  of its name that is the same file. After a run that succeeds (its last line is the
  success line), a second run on the same directory moves nothing, whatever faults the
  second run meets: it makes no \<^verbatim>\<open>mkdir\<close> and no \<^verbatim>\<open>rename\<close> call, prints no line for a
  moved file, and leaves the files as the first run left them.
\<close>

theorem organizer_idempotent:
  assumes "files w = Some d" and "unlinked_destinations lc d"
    and "last (trace (organizeDirectory lc flt p w)) = Stdout Finished"
  shows "files (organizeDirectory lc flt' p (organizeDirectory lc flt p w)) =
           files (organizeDirectory lc flt p w) \<and>
         (\<forall>item folder.
            Call (Mkdir folder) \<notin>
              set (since (organizeDirectory lc flt p w)
                     (organizeDirectory lc flt' p (organizeDirectory lc flt p w))) \<and>
            Call (Rename item folder) \<notin>
              set (since (organizeDirectory lc flt p w)
                     (organizeDirectory lc flt' p (organizeDirectory lc flt p w))) \<and>
            Stdout (Moved item folder) \<notin>
              set (since (organizeDirectory lc flt p w)
                     (organizeDirectory lc flt' p (organizeDirectory lc flt p w))))"
proof -
  let ?a = "organizeDirectory lc flt p w"
  from organizeDirectory_success [OF assms(3)] obtain d0 w2 where
    d0: "files w = Some d0"
    and run0: "for_items lc flt (map fst d0) (emit (Call Scandir) (console_log (Starting p) w)) =
      (None, w2)"
    and a: "?a = console_log Finished w2" by blast
  from d0 assms(1) have "d0 = d" by simp
  with run0 d0 have d: "files w = Some d"
    and run: "for_items lc flt (map fst d) (emit (Call Scandir) (console_log (Starting p) w)) =
      (None, w2)" by simp_all
  note ul = unlinked_destinations_D [OF assms(2)]
  have "\<forall>n. eligible lc d n \<longrightarrow> n \<in> set (map fst d)"
  proof (intro allI impI)
    fix n assume "eligible lc d n"
    then obtain c where "map_of d n = Some (File c)" using eligible_file by blast
    then show "n \<in> set (map fst d)" by (metis map_of_SomeD fst_conv image_eqI set_map)
  qed
  then have all: "\<forall>n. eligible lc d n \<longrightarrow> n \<in> set (map fst d)" .
  have "files (emit (Call Scandir) (console_log (Starting p) w)) = Some d" using d by simp
  from success_leaves_none_eligible [OF this run all ul] obtain d' where
    d': "files w2 = Some d'" and none: "\<forall>n. \<not> eligible lc d' n" by blast
  from d' a have da: "files ?a = Some d'" by simp
  let ?b = "organizeDirectory lc flt' p ?a"
  let ?listed = "emit (Call Scandir) (console_log (Starting p) ?a)"
  have "files ?b = Some d' \<and> (\<exists>evs. trace ?b = trace ?a @ evs \<and>
      (\<forall>item folder. Call (Mkdir folder) \<notin> set evs \<and> Call (Rename item folder) \<notin> set evs \<and>
         Stdout (Moved item folder) \<notin> set evs))"
    using da
  proof (cases rule: organizeDirectory_cases [where lc = lc and flt = flt' and p = p])
    case (listing_failed e)
    with da show ?thesis by auto
  next
    case (listed r w3)
    have "files ?listed = Some d'" using da by simp
    from none_eligible_only_stats [OF this none listed(2)] have
      w3: "files w3 = Some d'" "trace w3 = trace ?listed @ since ?listed w3"
      and stats: "\<forall>ev \<in> set (since ?listed w3). \<exists>n. ev = Call (Stat n)" by simp_all
    from stats have nomove: "\<forall>item folder. Call (Mkdir folder) \<notin> set (since ?listed w3) \<and>
        Call (Rename item folder) \<notin> set (since ?listed w3) \<and>
        Stdout (Moved item folder) \<notin> set (since ?listed w3)" by auto
    from w3(2) have tr: "trace w3 = trace ?a @ Stdout (Starting p) # Call Scandir # since ?listed w3"
      by simp
    show ?thesis
    proof (cases r)
      case None
      with listed(3) tr w3(1) nomove show ?thesis by auto
    next
      case (Some e)
      with listed(3) tr w3(1) nomove show ?thesis by auto
    qed
  qed
  then obtain evs where fb: "files ?b = Some d'" and tb: "trace ?b = trace ?a @ evs"
    and nm: "\<forall>item folder. Call (Mkdir folder) \<notin> set evs \<and> Call (Rename item folder) \<notin> set evs \<and>
         Stdout (Moved item folder) \<notin> set evs" by blast
  from tb have "since ?a ?b = evs" by (rule since_extend)
  with fb da nm show ?thesis by simp
qed

theorem organizer_idempotent_witness:
  "let d = [(''photo.JPG'', File 1), (''run'', File 2), (''backup'', Dir [])];
       w = \<lparr>files = Some d, trace = []\<rparr>
   in unlinked_destinations id d \<and>
      last (trace (organizeDirectory id no_faults ''/t'' w)) = Stdout Finished \<and>
      files (organizeDirectory id no_faults ''/t'' (organizeDirectory id no_faults ''/t'' w)) =
        files (organizeDirectory id no_faults ''/t'' w) \<and>
      (\<forall>item folder.
         Call (Mkdir folder) \<notin>
           set (since (organizeDirectory id no_faults ''/t'' w)
                  (organizeDirectory id no_faults ''/t'' (organizeDirectory id no_faults ''/t'' w))) \<and>
         Call (Rename item folder) \<notin>
           set (since (organizeDirectory id no_faults ''/t'' w)
                  (organizeDirectory id no_faults ''/t'' (organizeDirectory id no_faults ''/t'' w))) \<and>
         Stdout (Moved item folder) \<notin>
           set (since (organizeDirectory id no_faults ''/t'' w)
                  (organizeDirectory id no_faults ''/t'' (organizeDirectory id no_faults ''/t'' w))))"
proof -
  let ?d = "[(''photo.JPG'', File 1), (''run'', File 2), (''backup'', Dir [])]"
  let ?w = "\<lparr>files = Some ?d, trace = []\<rparr>"
  have listed: "files ?w = Some ?d" by simp
  have unlinked: "unlinked_destinations id ?d"
    by (simp add: unlinked_destinations_def eligible_def extname_def toLowerCase_def
        toLowerCase_char_def getDestinationFolder_def FOLDER_MAPPING_def)
  have first: "last (trace (organizeDirectory id no_faults ''/t'' ?w)) = Stdout Finished"
    by (simp add: run_defs)
  show ?thesis
    unfolding Let_def
    by (rule conjI [OF unlinked conjI [OF first organizer_idempotent [OF listed unlinked first]]])
qed

section \<open>Where the moved files are\<close>














section \<open>The case of the extension's letters\<close>












section \<open>The files of the tree\<close>

lemma files_in_Nil [simp]: "files_in [] = {#}"
  by (simp add: files_in_def)

lemma files_in_Cons [simp]:
  "files_in ((n, x) # d) = (case x of File c \<Rightarrow> {#c#} | Dir sub \<Rightarrow> {#}) + files_in d"
  by (simp add: files_in_def)

lemma tree_files_Nil [simp]: "tree_files [] = {#}"
  by (simp add: tree_files_def)

lemma tree_files_Cons [simp]:
  "tree_files ((n, x) # d) = (case x of File c \<Rightarrow> {#c#} | Dir sub \<Rightarrow> files_in sub) + tree_files d"
  by (simp add: tree_files_def)

lemma tree_files_append [simp]: "tree_files (d @ e) = tree_files d + tree_files e"
  by (simp add: tree_files_def)















end
